theory Spec2Isabelle
  imports Complex_Main "HOL-Library.Multiset"
begin

section \<open>Issue model\<close>

text \<open>
  The package \<open>model\<close> is imported by every source file but is not among them. Its
  string-typed enumerations are used through their constants only.
\<close>

type_synonym DependencyType = string
type_synonym Status = string
type_synonym IssueType = string

text \<open>Modelled from the spec: the constants of \<open>model.DependencyType\<close>, whose
  declaration is missing; the spec names the values \<open>blocks\<close>, \<open>parent-child\<close>,
  \<open>related\<close> and \<open>discovered-from\<close>.\<close>

definition DepBlocks :: DependencyType where
  "DepBlocks = ''blocks''"

definition DepParentChild :: DependencyType where
  "DepParentChild = ''parent-child''"


definition DepDiscoveredFrom :: DependencyType where
  "DepDiscoveredFrom = ''discovered-from''"

text \<open>Modelled from the spec: the constants of \<open>model.Status\<close> and
  \<open>model.IssueType\<close>, whose declarations are missing; the spec lists the status values
  open, in_progress, blocked, deferred, pinned, hooked, closed, tombstone and the types
  bug, feature, task, epic, chore.\<close>

definition StatusOpen :: Status where "StatusOpen = ''open''"
definition StatusInProgress :: Status where "StatusInProgress = ''in_progress''"
definition StatusBlocked :: Status where "StatusBlocked = ''blocked''"
definition StatusDeferred :: Status where "StatusDeferred = ''deferred''"
definition StatusPinned :: Status where "StatusPinned = ''pinned''"
definition StatusHooked :: Status where "StatusHooked = ''hooked''"
definition StatusClosed :: Status where "StatusClosed = ''closed''"
definition StatusTombstone :: Status where "StatusTombstone = ''tombstone''"

definition TypeTask :: IssueType where "TypeTask = ''task''"
definition TypeBug :: IssueType where "TypeBug = ''bug''"
definition TypeFeature :: IssueType where "TypeFeature = ''feature''"
definition TypeEpic :: IssueType where "TypeEpic = ''epic''"
definition TypeChore :: IssueType where "TypeChore = ''chore''"

text \<open>A \<open>time.Time\<close> is kept as an opaque instant; \<open>zeroTime\<close> is \<open>time.Time{}\<close>.\<close>

type_synonym Time = int

definition zeroTime :: Time where
  "zeroTime = 0"

record Dependency =
  IssueID :: string
  DependsOnID :: string
  Type :: DependencyType

record Issue =
  ID :: string
  Title :: string
  Description :: string
  Status :: Status
  IssueType :: IssueType
  Priority :: int
  CreatedAt :: Time
  UpdatedAt :: Time
  ClosedAt :: "Time option"
  Assignee :: string
  Labels :: "string list"
  Dependencies :: "Dependency list"

section \<open>The directed graph of gonum's \<open>simple\<close> package\<close>

text \<open>
  \<open>NewAnalyzer\<close> stores its graph in a \<open>simple.DirectedGraph\<close> of the gonum library.
  The library keeps a map of nodes keyed by int64 id, two nested maps \<open>from\<close> and \<open>to\<close>
  keyed by the two endpoint ids, and an id allocator remembering the largest id in use.
  An edge carries its two endpoints and nothing else, and the nested maps hold at most
  one edge per ordered pair: \<open>edges\<close> below is that set of pairs, kept as a list without
  repetition. The lists stand for maps; the library attaches no order to them.
\<close>

record DirectedGraph =
  nodes :: "int list"
  edges :: "(int \<times> int) list"
  maxID :: int

datatype panic =
    SelfEdge        \<comment> \<open>\<open>panic("simple: adding self edge")\<close>\<close>
  | NodeCollision   \<comment> \<open>\<open>panic("simple: node ID collision: ...")\<close>\<close>
  | NilDereference  \<comment> \<open>a method call on a nil \<open>graph.Node\<close>\<close>

definition NewDirectedGraph :: DirectedGraph where
  "NewDirectedGraph = \<lparr>nodes = [], edges = [], maxID = -1\<rparr>"

text \<open>\<open>NewNode\<close>: id 0 for the empty graph, otherwise the allocator's next id, which is
  one more than the largest id in use as long as no node has been removed.\<close>

definition NewNode :: "DirectedGraph \<Rightarrow> int" where
  "NewNode G = (if nodes G = [] then 0 else maxID G + 1)"

definition AddNode :: "DirectedGraph \<Rightarrow> int \<Rightarrow> panic + DirectedGraph" where
  "AddNode G n =
     (if n \<in> set (nodes G) then Inl NodeCollision
      else Inr (G\<lparr>nodes := nodes G @ [n], maxID := max (maxID G) n\<rparr>))"

text \<open>\<open>SetEdge\<close> panics when both endpoints are the same node; otherwise it makes sure
  both endpoints are nodes and stores the edge under \<open>from[fid][tid]\<close> and
  \<open>to[tid][fid]\<close>, replacing an edge already stored there.\<close>

definition ensureNode :: "DirectedGraph \<Rightarrow> int \<Rightarrow> DirectedGraph" where
  "ensureNode G n =
     (if n \<in> set (nodes G) then G
      else G\<lparr>nodes := nodes G @ [n], maxID := max (maxID G) n\<rparr>)"

definition SetEdge :: "DirectedGraph \<Rightarrow> int \<Rightarrow> int \<Rightarrow> panic + DirectedGraph" where
  "SetEdge G fid tid =
     (if fid = tid then Inl SelfEdge
      else (let G' = ensureNode (ensureNode G fid) tid
            in Inr (G'\<lparr>edges := List.insert (fid, tid) (edges G')\<rparr>)))"

text \<open>\<open>To(id)\<close>: the nodes with an edge into \<open>id\<close>; \<open>From(id)\<close>: the nodes reached by an
  edge out of \<open>id\<close>.\<close>

definition To :: "DirectedGraph \<Rightarrow> int \<Rightarrow> int list" where
  "To G n = map fst (filter (\<lambda>e. snd e = n) (edges G))"

definition From :: "DirectedGraph \<Rightarrow> int \<Rightarrow> int list" where
  "From G n = map snd (filter (\<lambda>e. fst e = n) (edges G))"

section \<open>Graph construction: \<open>NewAnalyzer\<close>\<close>

record Analyzer =
  g :: DirectedGraph
  idToNode :: "string \<rightharpoonup> int"
  nodeToID :: "int \<rightharpoonup> string"
  issueMap :: "string \<rightharpoonup> Issue"

definition emptyAnalyzer :: Analyzer where
  "emptyAnalyzer =
     \<lparr>g = NewDirectedGraph, idToNode = Map.empty, nodeToID = Map.empty,
      issueMap = Map.empty\<rparr>"

text \<open>Body of the first loop: register the issue, allocate a node for it, and record the
  node under the issue id in both directions.\<close>

definition addIssueNode :: "Analyzer \<Rightarrow> Issue \<Rightarrow> panic + Analyzer" where
  "addIssueNode a issue =
     (let im = (issueMap a)(ID issue \<mapsto> issue);
          n = NewNode (g a)
      in case AddNode (g a) n of
           Inl e \<Rightarrow> Inl e
         | Inr G' \<Rightarrow>
             Inr (a\<lparr>g := G',
                    idToNode := (idToNode a)(ID issue \<mapsto> n),
                    nodeToID := (nodeToID a)(n \<mapsto> ID issue),
                    issueMap := im\<rparr>))"

fun addNodes :: "Analyzer \<Rightarrow> Issue list \<Rightarrow> panic + Analyzer" where
  "addNodes a [] = Inr a"
| "addNodes a (issue # rest) =
     (case addIssueNode a issue of
        Inl e \<Rightarrow> Inl e
      | Inr a' \<Rightarrow> addNodes a' rest)"

text \<open>The inner loop of the second pass: one \<open>SetEdge\<close> for every dependency whose
  target id is known. Neither the dependency's type nor its \<open>IssueID\<close> is read.\<close>

fun addDepEdges ::
  "(string \<rightharpoonup> int) \<Rightarrow> int \<Rightarrow> DirectedGraph \<Rightarrow> Dependency list \<Rightarrow> panic + DirectedGraph"
where
  "addDepEdges m u G [] = Inr G"
| "addDepEdges m u G (dep # rest) =
     (case m (DependsOnID dep) of
        None \<Rightarrow> addDepEdges m u G rest
      | Some v \<Rightarrow>
          (case SetEdge G u v of
             Inl e \<Rightarrow> Inl e
           | Inr G' \<Rightarrow> addDepEdges m u G' rest))"

fun addEdges ::
  "(string \<rightharpoonup> int) \<Rightarrow> DirectedGraph \<Rightarrow> Issue list \<Rightarrow> panic + DirectedGraph"
where
  "addEdges m G [] = Inr G"
| "addEdges m G (issue # rest) =
     (case m (ID issue) of
        None \<Rightarrow> addEdges m G rest
      | Some u \<Rightarrow>
          (case addDepEdges m u G (Dependencies issue) of
             Inl e \<Rightarrow> Inl e
           | Inr G' \<Rightarrow> addEdges m G' rest))"

definition NewAnalyzer :: "Issue list \<Rightarrow> panic + Analyzer" where
  "NewAnalyzer issues =
     (case addNodes emptyAnalyzer issues of
        Inl e \<Rightarrow> Inl e
      | Inr a \<Rightarrow>
          (case addEdges (idToNode a) (g a) issues of
             Inl e \<Rightarrow> Inl e
           | Inr G' \<Rightarrow> Inr (a\<lparr>g := G'\<rparr>)))"

text \<open>The graph of a construction that returned, or the panic that ended it.\<close>

definition builtGraph :: "Issue list \<Rightarrow> panic + DirectedGraph" where
  "builtGraph issues = map_sum id g (NewAnalyzer issues)"

subsection \<open>Notions used to state the properties of graph construction\<close>

text \<open>The invariant of the first loop: every node id is at most the allocator's
  \<open>maxID\<close>, and \<open>idToNode\<close> only holds nodes of the graph, each mapped back to its issue
  id by \<open>nodeToID\<close>.\<close>

definition graph_inv :: "Analyzer \<Rightarrow> bool" where
  "graph_inv a \<longleftrightarrow>
     (\<forall>n\<in>set (nodes (g a)). n \<le> maxID (g a)) \<and>
     (\<forall>s n. idToNode a s = Some n \<longrightarrow> n \<in> set (nodes (g a)) \<and> nodeToID a n = Some s)"

text \<open>The pairs of nodes linked by some dependency of some issue, of whatever type.\<close>

definition depEdges :: "(string \<rightharpoonup> int) \<Rightarrow> Issue list \<Rightarrow> (int \<times> int) set" where
  "depEdges m issues =
     {(u, v). \<exists>issue\<in>set issues. \<exists>dep\<in>set (Dependencies issue).
                m (ID issue) = Some u \<and> m (DependsOnID dep) = Some v}"

text \<open>Some issue lists itself as a dependency.\<close>

definition selfDep :: "Issue list \<Rightarrow> bool" where
  "selfDep issues \<longleftrightarrow>
     (\<exists>issue\<in>set issues. \<exists>dep\<in>set (Dependencies issue). DependsOnID dep = ID issue)"




subsection \<open>Sample inputs\<close>

definition mkDep :: "string \<Rightarrow> string \<Rightarrow> DependencyType \<Rightarrow> Dependency" where
  "mkDep i d t = \<lparr>IssueID = i, DependsOnID = d, Type = t\<rparr>"

text \<open>An open task with the given id and dependencies and no other content.\<close>

definition mkIssue :: "string \<Rightarrow> Dependency list \<Rightarrow> Issue" where
  "mkIssue i deps =
     \<lparr>ID = i, Title = [], Description = [], Status = StatusOpen, IssueType = TypeTask,
      Priority = 2, CreatedAt = zeroTime, UpdatedAt = zeroTime, ClosedAt = None,
      Assignee = [], Labels = [], Dependencies = deps\<rparr>"






section \<open>Normalising a wire record: \<open>toModelIssue\<close>\<close>

text \<open>\<open>protoIssue\<close> mirrors the JSON shape of the daemon's response. A field whose Go name
  is also a field of \<open>Issue\<close> or \<open>Dependency\<close> carries the prefix \<open>proto\<close> here.\<close>

record protoIssue =
  protoID :: string
  protoTitle :: string
  protoDescription :: string
  protoStatus :: string
  protoType :: string
  protoPriority :: int
  protoCreatedAt :: string
  protoUpdatedAt :: string
  protoClosedAt :: string
  Parent :: string
  protoAssignee :: string
  CreatedBy :: string
  protoLabels :: "string list"
  Children :: "string list"
  DependsOn :: "string list"
  Blocks :: "string list"
  BlockedBy :: "string list"
  HookBead :: string
  AgentState :: string

definition protoStatusMap :: "string \<rightharpoonup> Status" where
  "protoStatusMap = map_of
     [(''ISSUE_STATUS_OPEN'', StatusOpen),
      (''ISSUE_STATUS_IN_PROGRESS'', StatusInProgress),
      (''ISSUE_STATUS_BLOCKED'', StatusBlocked),
      (''ISSUE_STATUS_DEFERRED'', StatusDeferred),
      (''ISSUE_STATUS_PINNED'', StatusPinned),
      (''ISSUE_STATUS_HOOKED'', StatusHooked),
      (''ISSUE_STATUS_CLOSED'', StatusClosed),
      (''ISSUE_STATUS_TOMBSTONE'', StatusTombstone)]"

definition protoTypeMap :: "string \<rightharpoonup> IssueType" where
  "protoTypeMap = map_of
     [(''ISSUE_TYPE_TASK'', TypeTask),
      (''ISSUE_TYPE_BUG'', TypeBug),
      (''ISSUE_TYPE_FEATURE'', TypeFeature),
      (''ISSUE_TYPE_EPIC'', TypeEpic),
      (''ISSUE_TYPE_CHORE'', TypeChore)]"

text \<open>\<open>strings.TrimPrefix\<close>.\<close>

definition TrimPrefix :: "string \<Rightarrow> string \<Rightarrow> string" where
  "TrimPrefix s pre =
     (if take (length pre) s = pre then drop (length pre) s else s)"

text \<open>The two library functions the loader calls are parameters of the model:
  \<open>ToLower\<close> is \<open>strings.ToLower\<close> and \<open>Parse\<close> is \<open>time.Parse(time.RFC3339, _)\<close>, which
  returns an instant or fails.\<close>

definition mapProtoStatus :: "(string \<Rightarrow> string) \<Rightarrow> string \<Rightarrow> Status" where
  "mapProtoStatus ToLower s =
     (case protoStatusMap s of
        Some v \<Rightarrow> v
      | None \<Rightarrow> ToLower (TrimPrefix s ''ISSUE_STATUS_''))"

definition mapProtoType :: "(string \<Rightarrow> string) \<Rightarrow> string \<Rightarrow> IssueType" where
  "mapProtoType ToLower s =
     (case protoTypeMap s of
        Some v \<Rightarrow> v
      | None \<Rightarrow> ToLower (TrimPrefix s ''ISSUE_TYPE_''))"

definition parseProtoTime :: "(string \<Rightarrow> Time option) \<Rightarrow> string \<Rightarrow> Time option" where
  "parseProtoTime Parse s = (if s = [] then Some zeroTime else Parse s)"

text \<open>The errors of \<open>toModelIssue\<close>, each with the issue id and the offending text.\<close>

datatype loadError =
    InvalidCreatedAt string string
  | InvalidUpdatedAt string string
  | InvalidClosedAt string string

text \<open>The loop run over \<open>dependsOn\<close> and again over \<open>blockedBy\<close>: an empty or already
  seen id is skipped, any other id is marked seen and appended as a blocking
  dependency of this issue. The state is the \<open>seen\<close> set and the dependencies so far.\<close>

fun flattenBlocking ::
  "string \<Rightarrow> string list \<Rightarrow> string set \<times> Dependency list \<Rightarrow> string set \<times> Dependency list"
where
  "flattenBlocking pid [] st = st"
| "flattenBlocking pid (dep # rest) (seen, deps) =
     (if dep = [] \<or> dep \<in> seen then flattenBlocking pid rest (seen, deps)
      else flattenBlocking pid rest
             (insert dep seen,
              deps @ [\<lparr>IssueID = pid, DependsOnID = dep, Type = DepBlocks\<rparr>]))"

definition flattenDependencies :: "protoIssue \<Rightarrow> Dependency list" where
  "flattenDependencies p =
     (let (seen, deps) =
            flattenBlocking (protoID p) (BlockedBy p)
              (flattenBlocking (protoID p) (DependsOn p) ({}, []))
      in if Parent p \<noteq> [] \<and> Parent p \<notin> seen
         then deps @ [\<lparr>IssueID = protoID p, DependsOnID = Parent p, Type = DepParentChild\<rparr>]
         else deps)"

definition toModelIssue ::
  "(string \<Rightarrow> Time option) \<Rightarrow> (string \<Rightarrow> string) \<Rightarrow> protoIssue \<Rightarrow> loadError + Issue"
where
  "toModelIssue Parse ToLower p =
     (case parseProtoTime Parse (protoCreatedAt p) of
        None \<Rightarrow> Inl (InvalidCreatedAt (protoID p) (protoCreatedAt p))
      | Some createdAt \<Rightarrow>
     (case parseProtoTime Parse (protoUpdatedAt p) of
        None \<Rightarrow> Inl (InvalidUpdatedAt (protoID p) (protoUpdatedAt p))
      | Some updatedAt \<Rightarrow>
     (let issue =
            \<lparr>ID = protoID p, Title = protoTitle p, Description = protoDescription p,
             Status = mapProtoStatus ToLower (protoStatus p),
             IssueType = mapProtoType ToLower (protoType p),
             Priority = protoPriority p, CreatedAt = createdAt, UpdatedAt = updatedAt,
             ClosedAt = None, Assignee = protoAssignee p, Labels = protoLabels p,
             Dependencies = []\<rparr>
      in case (if protoClosedAt p \<noteq> []
               then (case parseProtoTime Parse (protoClosedAt p) of
                       None \<Rightarrow> Inl (InvalidClosedAt (protoID p) (protoClosedAt p))
                     | Some t \<Rightarrow> Inr (issue\<lparr>ClosedAt := Some t\<rparr>))
               else Inr issue) of
           Inl e \<Rightarrow> Inl e
         | Inr issue' \<Rightarrow> Inr (issue'\<lparr>Dependencies := flattenDependencies p\<rparr>))))"

subsection \<open>Sample wire records\<close>

text \<open>A record with the given id, dependency arrays and parent, and empty timestamps.\<close>

definition mkProto ::
  "string \<Rightarrow> string list \<Rightarrow> string list \<Rightarrow> string list \<Rightarrow> string list \<Rightarrow> string \<Rightarrow> protoIssue"
where
  "mkProto i dependsOn blockedBy blocks children parent =
     \<lparr>protoID = i, protoTitle = ''Test issue'', protoDescription = [],
      protoStatus = ''ISSUE_STATUS_OPEN'', protoType = ''ISSUE_TYPE_TASK'',
      protoPriority = 0, protoCreatedAt = [], protoUpdatedAt = [], protoClosedAt = [],
      Parent = parent, protoAssignee = [], CreatedBy = [], protoLabels = [],
      Children = children, DependsOn = dependsOn, Blocks = blocks, BlockedBy = blockedBy,
      HookBead = [], AgentState = []\<rparr>"

text \<open>The dependency fields of the record in the repository's test
  \<open>TestToModelIssueDependencyFlattening\<close>.\<close>

definition testProto :: protoIssue where
  "testProto =
     mkProto ''bv-1'' [''bv-2'', ''bv-3''] [''bv-3'', ''bv-4''] [''bv-5''] [''bv-6'']
       ''bv-7''"

text \<open>A record whose parent is also listed in \<open>dependsOn\<close>.\<close>

definition parentAlsoBlocker :: protoIssue where
  "parentAlsoBlocker = mkProto ''bv-1'' [''bv-7''] [] [] [] ''bv-7''"

text \<open>Stand-ins for the library parameters in evaluations: a parser that rejects every
  non-empty text (the sample records have empty timestamps), and the identity for
  lower-casing (the sample status and type are found in the tables).\<close>

definition rejectAll :: "string \<Rightarrow> Time option" where
  "rejectAll s = None"

text \<open>The issue \<open>toModelIssue\<close> returns for \<open>testProto\<close>.\<close>

definition testIssue :: Issue where
  "testIssue =
     \<lparr>ID = ''bv-1'', Title = ''Test issue'', Description = [], Status = StatusOpen,
      IssueType = TypeTask, Priority = 0, CreatedAt = zeroTime, UpdatedAt = zeroTime,
      ClosedAt = None, Assignee = [], Labels = [],
      Dependencies =
        [\<lparr>IssueID = ''bv-1'', DependsOnID = ''bv-2'', Type = DepBlocks\<rparr>,
         \<lparr>IssueID = ''bv-1'', DependsOnID = ''bv-3'', Type = DepBlocks\<rparr>,
         \<lparr>IssueID = ''bv-1'', DependsOnID = ''bv-4'', Type = DepBlocks\<rparr>,
         \<lparr>IssueID = ''bv-1'', DependsOnID = ''bv-7'', Type = DepParentChild\<rparr>]\<rparr>"

section \<open>Graph statistics: \<open>Analyze\<close>\<close>

text \<open>A \<open>float64\<close> is modelled by a real number: the metrics handled here are finite, and
  the critical-path scores are small whole numbers, which \<open>float64\<close> represents
  exactly.\<close>

type_synonym float64 = real

text \<open>\<open>GraphStats\<close> with the fields \<open>Analyze\<close> fills and the three further metric maps
  that \<open>GenerateInsights\<close> reads.\<close>

record GraphStats =
  PageRank :: "string \<rightharpoonup> float64"
  Betweenness :: "string \<rightharpoonup> float64"
  OutDegree :: "string \<rightharpoonup> int"
  InDegree :: "string \<rightharpoonup> int"
  CriticalPathScore :: "string \<rightharpoonup> float64"
  Cycles :: "string list list"
  Density :: float64
  TopologicalOrder :: "string list"
  Eigenvector :: "string \<rightharpoonup> float64"
  Hubs :: "string \<rightharpoonup> float64"
  Authorities :: "string \<rightharpoonup> float64"

text \<open>
  What the gonum calls of one run of \<open>Analyze\<close> return. The library is not part of the
  repository, and its node iterator walks a Go map, so the order of \<open>g.Nodes()\<close> and the
  particular topological order are not determined by the graph; the results are
  therefore inputs of the model. A map returned by the library is given as the sequence
  of entries that \<open>range\<close> yields. \<open>topo.Sort\<close> returns a slice of nodes, holding \<open>nil\<close> at
  the place of every cyclic component, together with an error that lists the cyclic
  components; \<open>Sort_again\<close> is the result of the second call, made by \<open>computeHeights\<close>.
\<close>

record GonumResults =
  Nodes_result :: "int list"
  PageRank_result :: "(int \<times> float64) list"
  Betweenness_result :: "(int \<times> float64) list"
  DirectedCyclesIn_result :: "int list list"
  Sort_result :: "int option list \<times> int list list option"
  Sort_again :: "int option list \<times> int list list option"

text \<open>The position of an element, as the spec's \<open>indexOf\<close>: the first index holding it,
  and the length of the list when there is none.\<close>

fun indexOf :: "'a list \<Rightarrow> 'a \<Rightarrow> nat" where
  "indexOf [] x = 0"
| "indexOf (y # ys) x = (if x = y then 0 else Suc (indexOf ys x))"

text \<open>The documented contract of \<open>topo.Sort\<close>: with a nil error the slice holds every
  node once, without nil, and every edge leads from an earlier to a later node; an
  error is returned exactly when the graph has a directed cycle.\<close>

definition topoOrder :: "DirectedGraph \<Rightarrow> int list \<Rightarrow> bool" where
  "topoOrder G srt \<longleftrightarrow>
     distinct srt \<and> set srt = set (nodes G) \<and>
     list_all (\<lambda>e. indexOf srt (fst e) < indexOf srt (snd e)) (edges G)"

definition SortContract ::
  "DirectedGraph \<Rightarrow> int option list \<times> int list list option \<Rightarrow> bool"
where
  "SortContract G res \<longleftrightarrow>
     (case snd res of
        None \<Rightarrow> list_all (\<lambda>n. n \<noteq> None) (fst res) \<and> topoOrder G (map the (fst res))
      | Some components \<Rightarrow> \<not> acyclic (set (edges G)))"

text \<open>\<open>a.nodeToID[id]\<close>: the empty string for an id that is not a key.\<close>

definition nodeName :: "Analyzer \<Rightarrow> int \<Rightarrow> string" where
  "nodeName a n = (case nodeToID a n of Some s \<Rightarrow> s | None \<Rightarrow> [])"

text \<open>Reading a metric map at a key, as the Go index expression does: 0 for a key that
  is absent.\<close>

definition scoreAt :: "(string \<rightharpoonup> float64) \<Rightarrow> string \<Rightarrow> float64" where
  "scoreAt m k = (case m k of Some v \<Rightarrow> v | None \<Rightarrow> 0)"

text \<open>Step 1, the degree loop over \<open>g.Nodes()\<close>.\<close>

fun degreeLoop ::
  "Analyzer \<Rightarrow> int list \<Rightarrow> (string \<rightharpoonup> int) \<times> (string \<rightharpoonup> int) \<Rightarrow>
   (string \<rightharpoonup> int) \<times> (string \<rightharpoonup> int)"
where
  "degreeLoop a [] st = st"
| "degreeLoop a (n # rest) (inDeg, outDeg) =
     (let i = nodeName a n
      in degreeLoop a rest
           (inDeg(i \<mapsto> int (length (To (g a) n))),
            outDeg(i \<mapsto> int (length (From (g a) n)))))"

text \<open>Steps 2 and 3, copying a library result into a map keyed by issue id.\<close>

fun scoreLoop ::
  "Analyzer \<Rightarrow> (int \<times> float64) list \<Rightarrow> (string \<rightharpoonup> float64) \<Rightarrow> (string \<rightharpoonup> float64)"
where
  "scoreLoop a [] m = m"
| "scoreLoop a ((n, score) # rest) m = scoreLoop a rest (m(nodeName a n \<mapsto> score))"

text \<open>Step 5, the loop \<open>for i := len(sorted)-1; i >= 0; i--\<close>, given the slice already
  reversed: the id of each node is appended to \<open>TopologicalOrder\<close>.\<close>

fun orderLoop :: "Analyzer \<Rightarrow> int option list \<Rightarrow> string list \<Rightarrow> panic + string list" where
  "orderLoop a [] acc = Inr acc"
| "orderLoop a (None # rest) acc = Inl NilDereference"
| "orderLoop a (Some n # rest) acc = orderLoop a rest (acc @ [nodeName a n])"

text \<open>\<open>computeHeights\<close>. The inner loop takes the largest height recorded for a node with
  an edge into \<open>nid\<close>, starting from 0; the outer loop walks the sorted slice and records
  one more than that, under the node in \<open>heights\<close> and under its issue id in
  \<open>impactScores\<close>.\<close>

fun maxParentLoop :: "(int \<rightharpoonup> float64) \<Rightarrow> int list \<Rightarrow> float64 \<Rightarrow> float64" where
  "maxParentLoop heights [] maxParentHeight = maxParentHeight"
| "maxParentLoop heights (p # rest) maxParentHeight =
     (case heights p of
        Some h \<Rightarrow>
          (if h > maxParentHeight then maxParentLoop heights rest h
           else maxParentLoop heights rest maxParentHeight)
      | None \<Rightarrow> maxParentLoop heights rest maxParentHeight)"

fun heightsLoop ::
  "Analyzer \<Rightarrow> int option list \<Rightarrow> (int \<rightharpoonup> float64) \<times> (string \<rightharpoonup> float64) \<Rightarrow>
   panic + (int \<rightharpoonup> float64) \<times> (string \<rightharpoonup> float64)"
where
  "heightsLoop a [] st = Inr st"
| "heightsLoop a (None # rest) st = Inl NilDereference"
| "heightsLoop a (Some nid # rest) (heights, impactScores) =
     (let maxParentHeight = maxParentLoop heights (To (g a) nid) 0;
          h = 1 + maxParentHeight
      in heightsLoop a rest
           (heights(nid \<mapsto> h), impactScores(nodeName a nid \<mapsto> h)))"

definition computeHeights ::
  "Analyzer \<Rightarrow> int option list \<times> int list list option \<Rightarrow> panic + (string \<rightharpoonup> float64)"
where
  "computeHeights a sortResult =
     map_sum id snd (heightsLoop a (fst sortResult) (Map.empty, Map.empty))"

definition Analyze :: "Analyzer \<Rightarrow> GonumResults \<Rightarrow> panic + GraphStats" where
  "Analyze a lib =
     (let (inDeg, outDeg) = degreeLoop a (Nodes_result lib) (Map.empty, Map.empty);
          pr = scoreLoop a (PageRank_result lib) Map.empty;
          bw = scoreLoop a (Betweenness_result lib) Map.empty;
          cycles = map (map (nodeName a)) (DirectedCyclesIn_result lib);
          (sorted, err) = Sort_result lib
      in case (if err = None then orderLoop a (rev sorted) [] else Inr []) of
           Inl e \<Rightarrow> Inl e
         | Inr order \<Rightarrow>
        (case (if err = None then computeHeights a (Sort_again lib) else Inr Map.empty) of
           Inl e \<Rightarrow> Inl e
         | Inr cps \<Rightarrow>
             (let n = real (card (dom pr));
                  e = real (length (edges (g a)))
              in Inr \<lparr>PageRank = pr, Betweenness = bw, OutDegree = outDeg,
                      InDegree = inDeg, CriticalPathScore = cps, Cycles = cycles,
                      Density = (if n > 1 then e / (n * (n - 1)) else 0),
                      TopologicalOrder = order,
                      Eigenvector = Map.empty, Hubs = Map.empty,
                      Authorities = Map.empty\<rparr>)))"

subsection \<open>Notions used to state the properties of \<open>Analyze\<close>\<close>

text \<open>Issue \<open>y\<close> lists issue \<open>x\<close> as a dependency: the graph has the edge from \<open>y\<close> to
  \<open>x\<close>.\<close>

definition dependsOn :: "Issue \<Rightarrow> Issue \<Rightarrow> bool" where
  "dependsOn y x \<longleftrightarrow> (\<exists>d\<in>set (Dependencies y). DependsOnID d = ID x)"

text \<open>The heights recorded for the nodes of a list.\<close>

definition parentHeights :: "(int \<rightharpoonup> float64) \<Rightarrow> int list \<Rightarrow> float64 set" where
  "parentHeights heights ps = {h. \<exists>p\<in>set ps. heights p = Some h}"

text \<open>Every node of the list comes after all nodes with an edge into it, \<open>D\<close> being the
  nodes already passed.\<close>

fun parentsFirst :: "DirectedGraph \<Rightarrow> int set \<Rightarrow> int list \<Rightarrow> bool" where
  "parentsFirst G D [] = True"
| "parentsFirst G D (v # rest) = (set (To G v) \<subseteq> D \<and> parentsFirst G (insert v D) rest)"

text \<open>Every node of the graph is the node of some issue id.\<close>

definition nodes_named :: "Analyzer \<Rightarrow> bool" where
  "nodes_named a \<longleftrightarrow> (\<forall>n\<in>set (nodes (g a)). \<exists>s. idToNode a s = Some n)"

text \<open>\<open>NewAnalyzer(issues).Analyze()\<close>, as \<open>main\<close> calls it.\<close>

definition analyzeIssues :: "GonumResults \<Rightarrow> Issue list \<Rightarrow> panic + GraphStats" where
  "analyzeIssues lib issues =
     (case NewAnalyzer issues of
        Inl e \<Rightarrow> Inl e
      | Inr a \<Rightarrow> Analyze a lib)"

section \<open>Insights: \<open>getTopItems\<close> and \<open>GenerateInsights\<close>\<close>

text \<open>\<open>InsightItem\<close>; its field \<open>ID\<close> is \<open>ItemID\<close> here.\<close>

record InsightItem =
  ItemID :: string
  Value :: float64

text \<open>\<open>Insights\<close>; the fields \<open>Hubs\<close>, \<open>Authorities\<close> and \<open>Cycles\<close>, whose names
  \<open>GraphStats\<close> also uses, carry the suffix \<open>_ins\<close>.\<close>

record Insights =
  Bottlenecks :: "InsightItem list"
  Keystones :: "InsightItem list"
  Influencers :: "InsightItem list"
  Hubs_ins :: "InsightItem list"
  Authorities_ins :: "InsightItem list"
  Orphans :: "string list"
  Cycles_ins :: "string list list"
  ClusterDensity :: float64
  Stats :: GraphStats

text \<open>
  Two things in \<open>getTopItems\<close> are decided by the Go runtime and library rather than by
  the program: the order in which \<open>range\<close> yields the entries of a map, which the
  language leaves unspecified and the runtime randomises, and the result of
  \<open>sort.Slice\<close>, which is documented to sort by the given comparison \<open>lt\<close> without keeping equal
  elements in their original order. One run's choices are the two fields of a
  \<open>Runtime\<close>.
\<close>

record Runtime =
  Range :: "(string \<rightharpoonup> float64) \<Rightarrow> (string \<times> float64) list"
  SortSlice ::
    "((string \<times> float64) \<Rightarrow> (string \<times> float64) \<Rightarrow> bool) \<Rightarrow>
     (string \<times> float64) list \<Rightarrow> (string \<times> float64) list"

text \<open>The comparison handed to \<open>sort.Slice\<close>: \<open>ss[i].Value > ss[j].Value\<close>.\<close>

definition valueGreater :: "(string \<times> float64) \<Rightarrow> (string \<times> float64) \<Rightarrow> bool" where
  "valueGreater x y \<longleftrightarrow> snd x > snd y"

text \<open>What the language and the library promise about these choices for the map \<open>m\<close>:
  \<open>range\<close> yields every entry of \<open>m\<close> once, and \<open>sort.Slice\<close> returns a rearrangement of
  its input in which no element is below (by the comparison \<open>lt\<close>) one before it.\<close>

definition rangesOver :: "(string \<times> float64) list \<Rightarrow> (string \<rightharpoonup> float64) \<Rightarrow> bool" where
  "rangesOver entries m \<longleftrightarrow> distinct (map fst entries) \<and> map_of entries = m"

definition sortedBy :: "('a \<Rightarrow> 'a \<Rightarrow> bool) \<Rightarrow> 'a list \<Rightarrow> 'a list \<Rightarrow> bool" where
  "sortedBy lt xs ys \<longleftrightarrow> mset ys = mset xs \<and> sorted_wrt (\<lambda>x y. \<not> lt y x) ys"

definition RuntimeContract :: "Runtime \<Rightarrow> (string \<rightharpoonup> float64) \<Rightarrow> bool" where
  "RuntimeContract rt m \<longleftrightarrow>
     rangesOver (Range rt m) m \<and>
     sortedBy valueGreater (Range rt m) (SortSlice rt valueGreater (Range rt m))"

definition getTopItems :: "Runtime \<Rightarrow> (string \<rightharpoonup> float64) \<Rightarrow> int \<Rightarrow> InsightItem list" where
  "getTopItems rt m limit =
     (let ss = Range rt m;
          ss' = SortSlice rt valueGreater ss
      in map (\<lambda>kv. \<lparr>ItemID = fst kv, Value = snd kv\<rparr>) (take (nat limit) ss'))"

text \<open>\<open>GenerateInsights\<close> fills eight of the nine fields; \<open>Orphans\<close> is not among them
  and keeps the zero value of a slice.\<close>

definition GenerateInsights :: "Runtime \<Rightarrow> GraphStats \<Rightarrow> int \<Rightarrow> Insights" where
  "GenerateInsights rt s limit =
     \<lparr>Bottlenecks = getTopItems rt (Betweenness s) limit,
      Keystones = getTopItems rt (CriticalPathScore s) limit,
      Influencers = getTopItems rt (Eigenvector s) limit,
      Hubs_ins = getTopItems rt (Hubs s) limit,
      Authorities_ins = getTopItems rt (Authorities s) limit,
      Orphans = [],
      Cycles_ins = Cycles s,
      ClusterDensity = Density s,
      Stats = s\<rparr>"

text \<open>The five top-N lists of an insights record.\<close>

definition topLists :: "Insights \<Rightarrow> InsightItem list list" where
  "topLists ins =
     [Bottlenecks ins, Keystones ins, Influencers ins, Hubs_ins ins, Authorities_ins ins]"

text \<open>The metric maps the five lists are drawn from.\<close>

definition metricMaps :: "GraphStats \<Rightarrow> (string \<rightharpoonup> float64) list" where
  "metricMaps s = [Betweenness s, CriticalPathScore s, Eigenvector s, Hubs s, Authorities s]"

subsection \<open>A concrete runtime\<close>

text \<open>For a slice of at most 12 elements \<open>sort.Slice\<close> runs the library's insertion sort:
  each element in turn is swapped towards the front while the comparison \<open>lt\<close>
  puts it before its predecessor. The sorted prefix is kept reversed here, so that the predecessor is the
  head.\<close>

fun insertBack :: "('a \<Rightarrow> 'a \<Rightarrow> bool) \<Rightarrow> 'a \<Rightarrow> 'a list \<Rightarrow> 'a list" where
  "insertBack lt x [] = [x]"
| "insertBack lt x (y # ys) =
     (if lt x y then y # insertBack lt x ys else x # y # ys)"

definition insertionSort :: "('a \<Rightarrow> 'a \<Rightarrow> bool) \<Rightarrow> 'a list \<Rightarrow> 'a list" where
  "insertionSort lt xs = rev (foldl (\<lambda>acc x. insertBack lt x acc) [] xs)"

text \<open>A run in which \<open>range\<close> yields the entries in the given order of keys.\<close>

definition runtimeWithOrder :: "string list \<Rightarrow> Runtime" where
  "runtimeWithOrder keys =
     \<lparr>Range = (\<lambda>m. map (\<lambda>k. (k, scoreAt m k)) (filter (\<lambda>k. m k \<noteq> None) keys)),
      SortSlice = insertionSort\<rparr>"

text \<open>Two issues with the same score.\<close>

definition tiedScores :: "string \<rightharpoonup> float64" where
  "tiedScores = [''a'' \<mapsto> 1, ''b'' \<mapsto> 1]"

text \<open>The items made from a slice of key/value pairs.\<close>

definition items :: "(string \<times> float64) list \<Rightarrow> InsightItem list" where
  "items kvs = map (\<lambda>kv. \<lparr>ItemID = fst kv, Value = snd kv\<rparr>) kvs"

text \<open>The calls of \<open>main\<close> for \<open>--robot-insights\<close>: \<open>NewAnalyzer(issues).Analyze()\<close>
  followed by \<open>GenerateInsights(50)\<close>. The JSON encoder that follows writes slices in
  their order and maps by sorted key.\<close>

definition robotInsights :: "Runtime \<Rightarrow> GonumResults \<Rightarrow> Issue list \<Rightarrow> panic + Insights" where
  "robotInsights rt lib issues =
     (case analyzeIssues lib issues of
        Inl e \<Rightarrow> Inl e
      | Inr stats \<Rightarrow> Inr (GenerateInsights rt stats 50))"

section \<open>Properties of graph construction\<close>

lemma graph_inv_empty: "graph_inv emptyAnalyzer"
  by (simp add: graph_inv_def emptyAnalyzer_def NewDirectedGraph_def)

lemma NewNode_fresh:
  "\<forall>n\<in>set (nodes G). n \<le> maxID G \<Longrightarrow> NewNode G \<notin> set (nodes G)"
  by (auto simp: NewNode_def)

lemma addIssueNode_Inr:
  assumes "graph_inv a"
  shows "\<exists>a'. addIssueNode a issue = Inr a' \<and> graph_inv a' \<and>
           idToNode a' = (idToNode a)(ID issue \<mapsto> NewNode (g a)) \<and>
           edges (g a') = edges (g a) \<and>
           nodes (g a') = nodes (g a) @ [NewNode (g a)]"
proof -
  from assms have fresh: "NewNode (g a) \<notin> set (nodes (g a))"
    by (intro NewNode_fresh) (simp add: graph_inv_def)
  then show ?thesis using assms
    by (auto simp: addIssueNode_def AddNode_def graph_inv_def Let_def)
qed

lemma addNodes_Inr:
  "graph_inv a \<Longrightarrow> \<exists>a'. addNodes a issues = Inr a' \<and> graph_inv a' \<and>
      edges (g a') = edges (g a) \<and>
      dom (idToNode a') = dom (idToNode a) \<union> ID ` set issues"
proof (induction issues arbitrary: a)
  case Nil
  then show ?case by simp
next
  case (Cons x xs)
  from addIssueNode_Inr[OF Cons.prems, of x] obtain a1 where
    a1: "addIssueNode a x = Inr a1" "graph_inv a1"
        "idToNode a1 = (idToNode a)(ID x \<mapsto> NewNode (g a))" "edges (g a1) = edges (g a)"
    by blast
  from Cons.IH[OF a1(2)] obtain a' where
    a': "addNodes a1 xs = Inr a'" "graph_inv a'" "edges (g a') = edges (g a1)"
        "dom (idToNode a') = dom (idToNode a1) \<union> ID ` set xs"
    by blast
  show ?case using a1 a' by auto
qed

lemma SetEdge_Inr:
  assumes "SetEdge G u v = Inr G'"
  shows "u \<noteq> v" "set (edges G') = insert (u, v) (set (edges G))"
        "distinct (edges G) \<Longrightarrow> distinct (edges G')"
        "u \<in> set (nodes G) \<Longrightarrow> v \<in> set (nodes G) \<Longrightarrow> nodes G' = nodes G \<and> maxID G' = maxID G"
  using assms by (auto simp: SetEdge_def Let_def ensureNode_def split: if_splits)

lemma addDepEdges_Inr:
  "addDepEdges m u G deps = Inr G' \<Longrightarrow>
     set (edges G') = set (edges G) \<union> {(u, v) |v. \<exists>dep\<in>set deps. m (DependsOnID dep) = Some v} \<and>
     (distinct (edges G) \<longrightarrow> distinct (edges G')) \<and>
     (\<forall>dep\<in>set deps. m (DependsOnID dep) \<noteq> Some u)"
proof (induction deps arbitrary: G)
  case Nil
  then show ?case by simp
next
  case (Cons d ds)
  show ?case
  proof (cases "m (DependsOnID d)")
    case None
    with Cons show ?thesis by auto
  next
    case (Some v)
    with Cons.prems obtain G1 where G1: "SetEdge G u v = Inr G1" "addDepEdges m u G1 ds = Inr G'"
      by (auto split: sum.splits)
    from SetEdge_Inr[OF G1(1)] Cons.IH[OF G1(2)] Some show ?thesis by auto
  qed
qed

lemma addDepEdges_Inl:
  "addDepEdges m u G deps = Inl e \<Longrightarrow> e = SelfEdge \<and> (\<exists>dep\<in>set deps. m (DependsOnID dep) = Some u)"
proof (induction deps arbitrary: G)
  case Nil
  then show ?case by simp
next
  case (Cons d ds)
  then show ?case
    by (auto simp: SetEdge_def Let_def split: option.splits sum.splits if_splits)
qed

lemma addEdges_Inr:
  "addEdges m G issues = Inr G' \<Longrightarrow>
     set (edges G') = set (edges G) \<union> depEdges m issues \<and>
     (distinct (edges G) \<longrightarrow> distinct (edges G')) \<and>
     (\<forall>issue\<in>set issues. \<forall>dep\<in>set (Dependencies issue). \<forall>u.
         m (ID issue) = Some u \<longrightarrow> m (DependsOnID dep) \<noteq> Some u)"
proof (induction issues arbitrary: G)
  case Nil
  then show ?case by (simp add: depEdges_def)
next
  case (Cons x xs)
  have split: "depEdges m (x # xs) =
      {(u, v). \<exists>dep\<in>set (Dependencies x). m (ID x) = Some u \<and> m (DependsOnID dep) = Some v}
      \<union> depEdges m xs"
    by (auto simp: depEdges_def)
  show ?case
  proof (cases "m (ID x)")
    case None
    with Cons split show ?thesis by auto
  next
    case (Some u)
    with Cons.prems obtain G1 where
      G1: "addDepEdges m u G (Dependencies x) = Inr G1" "addEdges m G1 xs = Inr G'"
      by (auto split: sum.splits)
    from addDepEdges_Inr[OF G1(1)] Cons.IH[OF G1(2)] Some split show ?thesis by auto
  qed
qed

lemma addEdges_Inl:
  "addEdges m G issues = Inl e \<Longrightarrow>
     e = SelfEdge \<and> (\<exists>issue\<in>set issues. \<exists>dep\<in>set (Dependencies issue). \<exists>u.
         m (ID issue) = Some u \<and> m (DependsOnID dep) = Some u)"
proof (induction issues arbitrary: G)
  case Nil
  then show ?case by simp
next
  case (Cons x xs)
  show ?case
  proof (cases "m (ID x)")
    case None
    with Cons show ?thesis by auto
  next
    case (Some u)
    show ?thesis
    proof (cases "addDepEdges m u G (Dependencies x)")
      case (Inl e')
      with Cons.prems Some have "e' = e" by simp
      with addDepEdges_Inl[OF Inl] Some show ?thesis by auto
    next
      case (Inr G1)
      with Cons.prems Some have "addEdges m G1 xs = Inl e" by simp
      from Cons.IH[OF this] show ?thesis by auto
    qed
  qed
qed

lemma addDepEdges_nodes:
  "addDepEdges m u G deps = Inr G' \<Longrightarrow> u \<in> set (nodes G) \<Longrightarrow> ran m \<subseteq> set (nodes G) \<Longrightarrow>
     nodes G' = nodes G \<and> maxID G' = maxID G"
proof (induction deps arbitrary: G)
  case Nil
  then show ?case by simp
next
  case (Cons d ds)
  show ?case
  proof (cases "m (DependsOnID d)")
    case None
    with Cons show ?thesis by auto
  next
    case (Some v)
    with Cons.prems obtain G1 where G1: "SetEdge G u v = Inr G1" "addDepEdges m u G1 ds = Inr G'"
      by (auto split: sum.splits)
    from Some Cons.prems(3) have "v \<in> set (nodes G)" by (auto simp: ran_def)
    with SetEdge_Inr(4)[OF G1(1)] Cons.prems(2) have eq: "nodes G1 = nodes G \<and> maxID G1 = maxID G"
      by simp
    with Cons.IH[OF G1(2)] Cons.prems show ?thesis by simp
  qed
qed

lemma addEdges_nodes:
  "addEdges m G issues = Inr G' \<Longrightarrow> ran m \<subseteq> set (nodes G) \<Longrightarrow>
     nodes G' = nodes G \<and> maxID G' = maxID G"
proof (induction issues arbitrary: G)
  case Nil
  then show ?case by simp
next
  case (Cons x xs)
  show ?case
  proof (cases "m (ID x)")
    case None
    with Cons show ?thesis by auto
  next
    case (Some u)
    with Cons.prems obtain G1 where
      G1: "addDepEdges m u G (Dependencies x) = Inr G1" "addEdges m G1 xs = Inr G'"
      by (auto split: sum.splits)
    from Some Cons.prems(2) have "u \<in> set (nodes G)" by (auto simp: ran_def)
    from addDepEdges_nodes[OF G1(1) this Cons.prems(2)] Cons.IH[OF G1(2)] Cons.prems(2)
    show ?thesis by simp
  qed
qed

lemma graph_inv_ran: "graph_inv a \<Longrightarrow> ran (idToNode a) \<subseteq> set (nodes (g a))"
  by (auto simp: graph_inv_def ran_def)

lemma graph_inv_inj:
  "graph_inv a \<Longrightarrow> idToNode a s = Some n \<Longrightarrow> idToNode a t = Some n \<Longrightarrow> s = t"
  by (metis graph_inv_def option.inject)

lemma NewAnalyzer_Inr:
  assumes "NewAnalyzer issues = Inr a"
  shows "graph_inv a"
    and "dom (idToNode a) = ID ` set issues"
    and "set (edges (g a)) = depEdges (idToNode a) issues"
    and "distinct (edges (g a))"
    and "\<not> selfDep issues"
proof -
  from addNodes_Inr[OF graph_inv_empty, of issues] obtain a0 where
    a0: "addNodes emptyAnalyzer issues = Inr a0" "graph_inv a0"
        "edges (g a0) = edges (g emptyAnalyzer)"
        "dom (idToNode a0) = dom (idToNode emptyAnalyzer) \<union> ID ` set issues"
    by blast
  with assms obtain G' where
    G': "addEdges (idToNode a0) (g a0) issues = Inr G'" "a = a0\<lparr>g := G'\<rparr>"
    by (auto simp: NewAnalyzer_def split: sum.splits)
  have e0: "edges (g a0) = []" using a0(3) by (simp add: emptyAnalyzer_def NewDirectedGraph_def)
  from addEdges_nodes[OF G'(1) graph_inv_ran[OF a0(2)]]
  have same: "nodes G' = nodes (g a0)" "maxID G' = maxID (g a0)" by simp_all
  show "graph_inv a" using a0(2) same G'(2) by (simp add: graph_inv_def)
  show "dom (idToNode a) = ID ` set issues" using a0(4) G'(2) by (simp add: emptyAnalyzer_def)
  from addEdges_Inr[OF G'(1)] e0 G'(2)
  show "set (edges (g a)) = depEdges (idToNode a) issues" "distinct (edges (g a))" by simp_all
  show "\<not> selfDep issues"
  proof
    assume "selfDep issues"
    then obtain issue dep where
      d: "issue \<in> set issues" "dep \<in> set (Dependencies issue)" "DependsOnID dep = ID issue"
      by (auto simp: selfDep_def)
    from d(1) a0(4) obtain u where "idToNode a0 (ID issue) = Some u" by auto
    moreover from addEdges_Inr[OF G'(1)] d(1,2) this
    have "idToNode a0 (DependsOnID dep) \<noteq> Some u" by blast
    ultimately show False using d(3) by simp
  qed
qed

lemma NewAnalyzer_Inl:
  assumes "NewAnalyzer issues = Inl e"
  shows "e = SelfEdge \<and> selfDep issues"
proof -
  from addNodes_Inr[OF graph_inv_empty, of issues] obtain a0 where
    a0: "addNodes emptyAnalyzer issues = Inr a0" "graph_inv a0"
    by blast
  with assms have "addEdges (idToNode a0) (g a0) issues = Inl e"
    by (auto simp: NewAnalyzer_def split: sum.splits)
  from addEdges_Inl[OF this] obtain issue dep u where
    d: "e = SelfEdge" "issue \<in> set issues" "dep \<in> set (Dependencies issue)"
       "idToNode a0 (ID issue) = Some u" "idToNode a0 (DependsOnID dep) = Some u"
    by blast
  from graph_inv_inj[OF a0(2) d(5) d(4)] d show ?thesis by (auto simp: selfDep_def)
qed

lemma NewAnalyzer_panics_iff: "(\<exists>e. NewAnalyzer issues = Inl e) \<longleftrightarrow> selfDep issues"
proof (cases "NewAnalyzer issues")
  case (Inl e)
  with NewAnalyzer_Inl[OF Inl] show ?thesis by auto
next
  case (Inr a)
  with NewAnalyzer_Inr(5)[OF Inr] show ?thesis by auto
qed










lemmas build_defs = builtGraph_def NewAnalyzer_def emptyAnalyzer_def NewDirectedGraph_def
  addIssueNode_def NewNode_def AddNode_def SetEdge_def ensureNode_def mkDep_def mkIssue_def
  Let_def


subsection \<open>Claims about graph construction\<close>




text \<open>
  C3. The claim reads: for an issue with a dependency on its own id, \<open>NewAnalyzer\<close> drops
  the self-dependency and completes without aborting. The loop has no test for
  \<open>u = v\<close>: it hands the pair to \<open>SetEdge\<close>, which panics on equal endpoints, so
  construction aborts on the single issue \<open>A\<close> that depends on \<open>A\<close>.
\<close>

theorem self_dependency_panics:
  "NewAnalyzer [mkIssue ''A'' [mkDep ''A'' ''A'' DepBlocks]] = Inl SelfEdge"
  by (simp add: build_defs)







section \<open>Properties of \<open>toModelIssue\<close>\<close>

lemma flattenBlocking_char:
  "flattenBlocking pid xs (seen, deps) = (seen', deps') \<Longrightarrow>
     \<exists>ids. deps' = deps @ map (\<lambda>s. \<lparr>IssueID = pid, DependsOnID = s, Type = DepBlocks\<rparr>) ids \<and>
           distinct ids \<and> set ids = set xs - {[]} - seen \<and> seen' = seen \<union> set ids"
proof (induction xs arbitrary: seen deps)
  case Nil
  then show ?case by simp
next
  case (Cons x xs)
  show ?case
  proof (cases "x = [] \<or> x \<in> seen")
    case True
    with Cons.prems have "flattenBlocking pid xs (seen, deps) = (seen', deps')" by simp
    from Cons.IH[OF this] True show ?thesis by auto
  next
    case False
    with Cons.prems have "flattenBlocking pid xs
        (insert x seen, deps @ [\<lparr>IssueID = pid, DependsOnID = x, Type = DepBlocks\<rparr>])
        = (seen', deps')" by simp
    from Cons.IH[OF this] obtain ids where
      ids: "deps' = (deps @ [\<lparr>IssueID = pid, DependsOnID = x, Type = DepBlocks\<rparr>])
              @ map (\<lambda>s. \<lparr>IssueID = pid, DependsOnID = s, Type = DepBlocks\<rparr>) ids"
           "distinct ids" "set ids = set xs - {[]} - insert x seen"
           "seen' = insert x seen \<union> set ids"
      by blast
    show ?thesis
    proof (intro exI[of _ "x # ids"] conjI)
      show "deps' = deps @ map (\<lambda>s. \<lparr>IssueID = pid, DependsOnID = s, Type = DepBlocks\<rparr>) (x # ids)"
        using ids(1) by simp
      show "distinct (x # ids)" using ids(2,3) by auto
      show "set (x # ids) = set (x # xs) - {[]} - seen" using ids(3) False by auto
      show "seen' = seen \<union> set (x # ids)" using ids(4) by auto
    qed
  qed
qed

lemma flattenDependencies_char:
  "\<exists>ids. distinct ids \<and> set ids = (set (DependsOn p) \<union> set (BlockedBy p)) - {[]} \<and>
     flattenDependencies p =
       map (\<lambda>s. \<lparr>IssueID = protoID p, DependsOnID = s, Type = DepBlocks\<rparr>) ids @
       (if Parent p = [] \<or> Parent p \<in> set ids then []
        else [\<lparr>IssueID = protoID p, DependsOnID = Parent p, Type = DepParentChild\<rparr>])"
proof -
  obtain s1 d1 where one: "flattenBlocking (protoID p) (DependsOn p) ({}, []) = (s1, d1)"
    by (cases "flattenBlocking (protoID p) (DependsOn p) ({}, [])") auto
  obtain s2 d2 where two: "flattenBlocking (protoID p) (BlockedBy p) (s1, d1) = (s2, d2)"
    by (cases "flattenBlocking (protoID p) (BlockedBy p) (s1, d1)") auto
  from flattenBlocking_char[OF one] obtain ids1 where
    ids1: "d1 = map (\<lambda>s. \<lparr>IssueID = protoID p, DependsOnID = s, Type = DepBlocks\<rparr>) ids1"
          "distinct ids1" "set ids1 = set (DependsOn p) - {[]}" "s1 = set ids1"
    by auto
  from flattenBlocking_char[OF two] obtain ids2 where
    ids2: "d2 = d1 @ map (\<lambda>s. \<lparr>IssueID = protoID p, DependsOnID = s, Type = DepBlocks\<rparr>) ids2"
          "distinct ids2" "set ids2 = set (BlockedBy p) - {[]} - s1" "s2 = s1 \<union> set ids2"
    by auto
  have flat: "flattenDependencies p =
      (if Parent p \<noteq> [] \<and> Parent p \<notin> s2
       then d2 @ [\<lparr>IssueID = protoID p, DependsOnID = Parent p, Type = DepParentChild\<rparr>]
       else d2)"
    by (simp add: flattenDependencies_def one two)
  show ?thesis
  proof (intro exI[of _ "ids1 @ ids2"] conjI)
    show "distinct (ids1 @ ids2)" using ids1(2,4) ids2(2,3) by auto
    show "set (ids1 @ ids2) = (set (DependsOn p) \<union> set (BlockedBy p)) - {[]}"
      using ids1(3,4) ids2(3) by auto
    show "flattenDependencies p =
       map (\<lambda>s. \<lparr>IssueID = protoID p, DependsOnID = s, Type = DepBlocks\<rparr>) (ids1 @ ids2) @
       (if Parent p = [] \<or> Parent p \<in> set (ids1 @ ids2) then []
        else [\<lparr>IssueID = protoID p, DependsOnID = Parent p, Type = DepParentChild\<rparr>])"
      using flat ids1(1,4) ids2(1,4) by auto
  qed
qed

lemma toModelIssue_Dependencies:
  "toModelIssue Parse ToLower p = Inr issue \<Longrightarrow> Dependencies issue = flattenDependencies p"
  by (auto simp: toModelIssue_def Let_def split: option.splits if_splits)

lemma toModelIssue_inverse_fields:
  "toModelIssue Parse ToLower (p\<lparr>Blocks := b, Children := c\<rparr>) = toModelIssue Parse ToLower p"
  by (simp add: toModelIssue_def flattenDependencies_def
        cong: option.case_cong sum.case_cong if_cong)

lemmas loader_defs = toModelIssue_def parseProtoTime_def flattenDependencies_def
  mkProto_def mapProtoStatus_def mapProtoType_def protoStatusMap_def protoTypeMap_def Let_def

text \<open>
  C10. The claim reads: every non-empty id in \<open>depends_on\<close> and \<open>blocked_by\<close> becomes
  exactly one outgoing \<open>blocks\<close> dependency, deduplicated across both arrays; the parent
  field becomes a \<open>parent-child\<close> dependency from this issue to the parent; ids in
  \<open>blocks\<close> and \<open>children\<close> produce no dependencies. The parent is guarded by the \<open>seen\<close>
  set as well: a record whose parent \<open>bv-7\<close> is also listed in \<open>dependsOn\<close> gets the
  blocking dependency only, and no parent-child dependency.
\<close>

theorem parent_already_seen_no_parent_child:
  "Parent parentAlsoBlocker = ''bv-7'' \<and>
   map_sum id Dependencies (toModelIssue rejectAll id parentAlsoBlocker)
     = Inr [\<lparr>IssueID = ''bv-1'', DependsOnID = ''bv-7'', Type = DepBlocks\<rparr>]"
  by (simp add: parentAlsoBlocker_def loader_defs)

text \<open>
  C10, as the code has it: when normalisation succeeds, the dependencies of the issue are
  one \<open>blocks\<close> dependency from this issue for each distinct non-empty id of
  \<open>depends_on\<close> and \<open>blocked_by\<close>, followed by one \<open>parent-child\<close> dependency to the
  parent exactly when the parent is non-empty and is not among those ids; the \<open>blocks\<close>
  and \<open>children\<close> arrays have no influence on the result.
\<close>

theorem dependency_flattening:
  assumes "toModelIssue Parse ToLower p = Inr issue"
  shows "(\<exists>ids. distinct ids \<and>
            set ids = (set (DependsOn p) \<union> set (BlockedBy p)) - {[]} \<and>
            Dependencies issue =
              map (\<lambda>s. \<lparr>IssueID = protoID p, DependsOnID = s, Type = DepBlocks\<rparr>) ids @
              (if Parent p = [] \<or> Parent p \<in> set ids then []
               else [\<lparr>IssueID = protoID p, DependsOnID = Parent p,
                      Type = DepParentChild\<rparr>])) \<and>
         toModelIssue Parse ToLower (p\<lparr>Blocks := b, Children := c\<rparr>) = Inr issue"
  using assms flattenDependencies_char[of p] toModelIssue_Dependencies[OF assms]
  by (simp add: toModelIssue_inverse_fields)

theorem dependency_flattening_witness:
  "toModelIssue rejectAll id testProto = Inr testIssue \<and>
   length (Dependencies testIssue) = 4 \<and>
   toModelIssue rejectAll id (testProto\<lparr>Blocks := [], Children := []\<rparr>) = Inr testIssue"
proof -
  have run: "toModelIssue rejectAll id testProto = Inr testIssue"
    by (simp add: testProto_def testIssue_def loader_defs)
  note inst = dependency_flattening [OF run, of "[]" "[]"]
  from inst have rest:
    "toModelIssue rejectAll id (testProto\<lparr>Blocks := [], Children := []\<rparr>) = Inr testIssue"
    by (rule conjunct2)
  from inst obtain ids where
    d: "distinct ids"
    and s: "set ids = (set (DependsOn testProto) \<union> set (BlockedBy testProto)) - {[]}"
    and e: "Dependencies testIssue =
        map (\<lambda>s. \<lparr>IssueID = protoID testProto, DependsOnID = s, Type = DepBlocks\<rparr>) ids @
        (if Parent testProto = [] \<or> Parent testProto \<in> set ids then []
         else [\<lparr>IssueID = protoID testProto, DependsOnID = Parent testProto,
                Type = DepParentChild\<rparr>])"
    by (elim exE conjE)
  have ids_set: "(set (DependsOn testProto) \<union> set (BlockedBy testProto)) - {[]}
      = {''bv-2'', ''bv-3'', ''bv-4''}"
    by (auto simp: testProto_def mkProto_def)
  have three: "card ((set (DependsOn testProto) \<union> set (BlockedBy testProto)) - {[]}) = 3"
    unfolding ids_set by simp
  from d s three have len: "length ids = 3"
    by (metis distinct_card)
  have fresh: "Parent testProto \<noteq> [] \<and> Parent testProto \<notin> set ids"
    unfolding s by (simp add: testProto_def mkProto_def)
  from e fresh len have "length (Dependencies testIssue) = 4"
    by simp
  with run rest show ?thesis by (intro conjI)
qed

section \<open>Properties of \<open>getTopItems\<close>\<close>

lemma rangesOver_card: "rangesOver ss m \<Longrightarrow> card (dom m) = length ss"
  unfolding rangesOver_def
  by (metis distinct_card dom_map_of_conv_image_fst length_map set_map)

lemma rangesOver_entry: "rangesOver ss m \<Longrightarrow> (k, v) \<in> set ss \<longleftrightarrow> m k = Some v"
  unfolding rangesOver_def by (metis map_of_eq_Some_iff)

lemma sortedBy_set: "sortedBy lt xs ys \<Longrightarrow> set ys = set xs"
  unfolding sortedBy_def by (metis mset_eq_setD)

lemma sortedBy_length: "sortedBy lt xs ys \<Longrightarrow> length ys = length xs"
  unfolding sortedBy_def by (metis size_mset)

lemma sortedBy_distinct_fst:
  "sortedBy lt xs ys \<Longrightarrow> distinct (map fst xs) \<Longrightarrow> distinct (map fst ys)"
  unfolding sortedBy_def by (metis mset_eq_imp_distinct_iff mset_map)

lemma sortedBy_descending:
  "sortedBy valueGreater xs ys \<Longrightarrow> sorted_wrt (\<lambda>x y. snd x \<ge> snd y) ys"
  unfolding sortedBy_def valueGreater_def
  by (simp add: not_less)

lemma getTopItems_items:
  "getTopItems rt m limit = items (take (nat limit) (SortSlice rt valueGreater (Range rt m)))"
  by (simp add: getTopItems_def items_def Let_def)

lemma items_simps:
  "length (items kvs) = length kvs"
  "map ItemID (items kvs) = map fst kvs"
  "map Value (items kvs) = map snd kvs"
  "sorted_wrt (\<lambda>x y. Value x \<ge> Value y) (items kvs) = sorted_wrt (\<lambda>x y. snd x \<ge> snd y) kvs"
  by (simp_all add: items_def sorted_wrt_map comp_def)

lemma items_member: "x \<in> set (items kvs) \<longleftrightarrow> (ItemID x, Value x) \<in> set kvs"
  by (cases x) (force simp: items_def image_iff)

lemma getTopItems_props:
  fixes limit :: int
  assumes "RuntimeContract rt m"
  defines "L \<equiv> getTopItems rt m limit"
  shows "length L = min (nat limit) (card (dom m))"
    and "sorted_wrt (\<lambda>x y. Value x \<ge> Value y) L"
    and "distinct (map ItemID L)"
    and "\<forall>x\<in>set L. m (ItemID x) = Some (Value x)"
    and "\<forall>k v. m k = Some v \<longrightarrow> k \<notin> ItemID ` set L \<longrightarrow> (\<forall>x\<in>set L. v \<le> Value x)"
proof -
  define ss where "ss = Range rt m"
  define ss' where "ss' = SortSlice rt valueGreater ss"
  define n where "n = nat limit"
  from assms(1) have rng: "rangesOver ss m" and srt: "sortedBy valueGreater ss ss'"
    by (simp_all add: RuntimeContract_def ss_def ss'_def)
  have L: "L = items (take n ss')"
    by (simp add: L_def getTopItems_items ss_def ss'_def n_def)
  show "length L = min (nat limit) (card (dom m))"
    using rangesOver_card[OF rng] sortedBy_length[OF srt] by (simp add: L items_simps n_def)
  have desc: "sorted_wrt (\<lambda>x y. snd x \<ge> snd y) ss'"
    by (rule sortedBy_descending[OF srt])
  then show "sorted_wrt (\<lambda>x y. Value x \<ge> Value y) L"
    by (simp add: L items_simps sorted_wrt_take)
  from rng have "distinct (map fst ss)" by (simp add: rangesOver_def)
  with sortedBy_distinct_fst[OF srt] have dist: "distinct (map fst ss')" by simp
  then show "distinct (map ItemID L)"
    by (simp add: L items_simps take_map[symmetric] distinct_take)
  show "\<forall>x\<in>set L. m (ItemID x) = Some (Value x)"
  proof
    fix x assume "x \<in> set L"
    then have "(ItemID x, Value x) \<in> set (take n ss')" by (simp add: L items_simps items_member)
    then have "(ItemID x, Value x) \<in> set ss" using sortedBy_set[OF srt] by (metis in_set_takeD)
    then show "m (ItemID x) = Some (Value x)" using rangesOver_entry[OF rng] by simp
  qed
  show "\<forall>k v. m k = Some v \<longrightarrow> k \<notin> ItemID ` set L \<longrightarrow> (\<forall>x\<in>set L. v \<le> Value x)"
  proof (intro allI impI ballI)
    fix k v x
    assume kv: "m k = Some v" and out: "k \<notin> ItemID ` set L" and x: "x \<in> set L"
    from kv have "(k, v) \<in> set ss'" using rangesOver_entry[OF rng] sortedBy_set[OF srt] by simp
    then have "(k, v) \<in> set (take n ss') \<union> set (drop n ss')"
      by (metis append_take_drop_id set_append)
    moreover have "(k, v) \<notin> set (take n ss')"
    proof
      assume "(k, v) \<in> set (take n ss')"
      then have "\<lparr>ItemID = k, Value = v\<rparr> \<in> set L" by (simp add: L items_simps items_member)
      then have "k \<in> ItemID ` set L" by force
      with out show False by simp
    qed
    ultimately have later: "(k, v) \<in> set (drop n ss')" by simp
    from x have early: "(ItemID x, Value x) \<in> set (take n ss')" by (simp add: L items_simps items_member)
    from desc have "sorted_wrt (\<lambda>x y. snd x \<ge> snd y) (take n ss' @ drop n ss')" by simp
    then have "\<forall>p\<in>set (take n ss'). \<forall>q\<in>set (drop n ss'). snd p \<ge> snd q"
      unfolding sorted_wrt_append by blast
    with early later show "v \<le> Value x" by force
  qed
qed

lemma descending_unique:
  fixes xs ys :: "real list"
  assumes "mset xs = mset ys" "sorted_wrt (\<ge>) xs" "sorted_wrt (\<ge>) ys"
  shows "xs = ys"
proof -
  have "sorted (rev xs)" "sorted (rev ys)"
    using assms(2,3) by (simp_all add: sorted_wrt_rev)
  moreover have "mset (rev xs) = mset (rev ys)" using assms(1) by simp
  ultimately have "rev xs = rev ys"
    by (metis properties_for_sort)
  then show ?thesis by simp
qed

lemma sortedBy_values_unique:
  assumes "sortedBy valueGreater xs ys" "sortedBy valueGreater xs' ys'" "mset xs = mset xs'"
  shows "map snd ys = map snd ys'"
proof (rule descending_unique)
  from assms show "mset (map snd ys) = mset (map snd ys')"
    by (simp add: sortedBy_def)
  from sortedBy_descending[OF assms(1)] show "sorted_wrt (\<ge>) (map snd ys)"
    by (simp add: sorted_wrt_map)
  from sortedBy_descending[OF assms(2)] show "sorted_wrt (\<ge>) (map snd ys')"
    by (simp add: sorted_wrt_map)
qed

lemma rangesOver_mset:
  assumes "rangesOver xs m" "rangesOver ys m"
  shows "mset xs = mset ys"
proof -
  from assms have "distinct xs" "distinct ys"
    by (auto simp: rangesOver_def dest: distinct_map[THEN iffD1])
  moreover have "set xs = set ys"
    using rangesOver_entry[OF assms(1)] rangesOver_entry[OF assms(2)] by auto
  ultimately show ?thesis by (simp add: set_eq_iff_mset_eq_distinct)
qed

lemma getTopItems_values:
  assumes "RuntimeContract rt1 m" "RuntimeContract rt2 m"
  shows "map Value (getTopItems rt1 m limit) = map Value (getTopItems rt2 m limit)"
proof -
  from assms have r: "rangesOver (Range rt1 m) m" "rangesOver (Range rt2 m) m"
    and s: "sortedBy valueGreater (Range rt1 m) (SortSlice rt1 valueGreater (Range rt1 m))"
           "sortedBy valueGreater (Range rt2 m) (SortSlice rt2 valueGreater (Range rt2 m))"
    by (simp_all add: RuntimeContract_def)
  from sortedBy_values_unique[OF s rangesOver_mset[OF r]]
  show ?thesis
    by (simp add: getTopItems_items items_simps take_map[symmetric])
qed

lemma getTopItems_no_ties:
  assumes "RuntimeContract rt1 m" "RuntimeContract rt2 m" "inj_on m (dom m)"
  shows "getTopItems rt1 m limit = getTopItems rt2 m limit"
proof -
  define ys1 where "ys1 = SortSlice rt1 valueGreater (Range rt1 m)"
  define ys2 where "ys2 = SortSlice rt2 valueGreater (Range rt2 m)"
  from assms have r: "rangesOver (Range rt1 m) m" "rangesOver (Range rt2 m) m"
    and s: "sortedBy valueGreater (Range rt1 m) ys1" "sortedBy valueGreater (Range rt2 m) ys2"
    by (simp_all add: RuntimeContract_def ys1_def ys2_def)
  have vals: "map snd ys1 = map snd ys2"
    by (rule sortedBy_values_unique[OF s rangesOver_mset[OF r]])
  have mem1: "\<And>k v. (k, v) \<in> set ys1 \<Longrightarrow> m k = Some v"
    using sortedBy_set[OF s(1)] rangesOver_entry[OF r(1)] by simp
  have mem2: "\<And>k v. (k, v) \<in> set ys2 \<Longrightarrow> m k = Some v"
    using sortedBy_set[OF s(2)] rangesOver_entry[OF r(2)] by simp
  have "inj_on snd (set ys1 \<union> set ys2)"
  proof (rule inj_onI)
    fix p q assume p: "p \<in> set ys1 \<union> set ys2" and q: "q \<in> set ys1 \<union> set ys2"
      and eq: "snd p = snd q"
    from p mem1 mem2 have mp: "m (fst p) = Some (snd p)" by (cases p) auto
    from q mem1 mem2 have mq: "m (fst q) = Some (snd q)" by (cases q) auto
    from mp mq eq assms(3) have "fst p = fst q"
      by (metis domI inj_onD)
    with eq show "p = q" by (simp add: prod_eq_iff)
  qed
  with vals have "ys1 = ys2" by (simp add: inj_on_map_eq_map)
  then show ?thesis by (simp add: getTopItems_items ys1_def ys2_def)
qed

end
